theory Spec2Isabelle
  imports Complex_Main
begin

section \<open>The log-odds occupancy grid of \<open>probability_map.cpp\<close>\<close>

text \<open>
  The class \<open>mapping::ProbabilityMap\<close> keeps a dense matrix of log-odds values together
  with the world position of cell (0,0) and the edge length of a cell.

  Numbers. A C++ \<open>double\<close> is modelled by a HOL \<open>real\<close>, and there is no infinity and
  no NaN. The bounds checks, the clamp, interpolation and the two scenarios are
  modelled in exact arithmetic, where the program, on the inputs in question, computes
  the same results. The raster export and the general line walk depend on how each
  operation rounds: they are modelled with the rounding of a double operation as a
  parameter \<open>rnd\<close>, applied to the exact result of each operation, so that what is
  proved holds for every rounding with the properties of \<open>double_rounding\<close> below, the
  one of the machine among them.

  Division by zero is \<open>0\<close> in HOL and an infinity or a NaN in the program, so the model
  is the code only where the code does not divide by zero and does not overflow: for
  a cell size other than zero (the data model asks for a positive one), for
  probabilities strictly between 0 and 1 and for finite coordinates. A C++ \<open>int\<close> is modelled by \<open>int\<close> and a matrix dimension by
  \<open>nat\<close>; the model is the code for grids of fewer than \<open>2^31\<close> rows and columns and for
  points whose floored coordinates fit an \<open>int\<close>, where no conversion between \<open>size_t\<close>,
  \<open>int\<close> and \<open>double\<close> leaves its range.
\<close>

subsection \<open>Points and matrices\<close>

datatype Point2 = Point2 (px: real) (py: real)

definition pt_add :: "Point2 \<Rightarrow> Point2 \<Rightarrow> Point2" where
  "pt_add p q = Point2 (px p + px q) (py p + py q)"

definition pt_sub :: "Point2 \<Rightarrow> Point2 \<Rightarrow> Point2" where
  "pt_sub p q = Point2 (px p - px q) (py p - py q)"

definition pt_scale :: "real \<Rightarrow> Point2 \<Rightarrow> Point2" where
  "pt_scale s p = Point2 (s * px p) (s * py p)"

definition pt_div :: "Point2 \<Rightarrow> real \<Rightarrow> Point2" where
  "pt_div p s = Point2 (px p / s) (py p / s)"

text \<open>
  A \<open>gtsam::Matrix\<close>: its two dimensions and its coefficients. Only coefficients
  \<open>coeff M i j\<close> with \<open>i < nrows M\<close> and \<open>j < ncols M\<close> exist in the program; the model
  never reads another one.
\<close>

record Matrix =
  nrows :: nat
  ncols :: nat
  coeff :: "nat \<Rightarrow> nat \<Rightarrow> real"

definition Zero :: "nat \<Rightarrow> nat \<Rightarrow> Matrix" where
  "Zero m n = \<lparr>nrows = m, ncols = n, coeff = \<lambda>_ _. 0\<rparr>"

text \<open>The assignment \<open>M(i,j) = v\<close>.\<close>

definition set_coeff :: "Matrix \<Rightarrow> nat \<Rightarrow> nat \<Rightarrow> real \<Rightarrow> Matrix" where
  "set_coeff M i j v = M\<lparr>coeff := (coeff M)(i := (coeff M i)(j := v))\<rparr>"

text \<open>
  \<open>gtsam::Matrix_(m, n, data)\<close> (here \<open>Matrix_from\<close>) fills an \<open>m\<close> by \<open>n\<close> matrix from a flat row-major
  buffer, which the caller must make \<open>m * n\<close> long.
\<close>

definition Matrix_from :: "nat \<Rightarrow> nat \<Rightarrow> real list \<Rightarrow> Matrix" where
  "Matrix_from m n buf =
     \<lparr>nrows = m, ncols = n,
      coeff = \<lambda>i j. if i < m \<and> j < n then buf ! (i * n + j) else 0\<rparr>"

subsection \<open>The map\<close>

text \<open>The members \<open>data_\<close>, \<open>origin_\<close> and \<open>cell_size_\<close>.\<close>

record ProbabilityMap =
  data :: Matrix
  origin :: Point2
  cell_size :: real

datatype error = OutOfBounds

definition MAX_LOG_ODDS :: real where
  "MAX_LOG_ODDS = 50"

definition ProbabilityMap :: "nat \<Rightarrow> nat \<Rightarrow> real \<Rightarrow> Point2 \<Rightarrow> ProbabilityMap" where
  "ProbabilityMap m n cs org = \<lparr>data = Zero m n, origin = org, cell_size = cs\<rparr>"

text \<open>
  Modelled from the spec: the accessors \<open>rows()\<close> and \<open>cols()\<close> are declared in the
  header \<open>probability_map.h\<close>, which is not among the sources; they are the dimensions
  of the cell array.
\<close>

definition rows :: "ProbabilityMap \<Rightarrow> nat" where
  "rows g = nrows (data g)"

definition cols :: "ProbabilityMap \<Rightarrow> nat" where
  "cols g = ncols (data g)"

definition load :: "real list \<Rightarrow> ProbabilityMap \<Rightarrow> ProbabilityMap" where
  "load buf g = g\<lparr>data := Matrix_from (rows g) (cols g) buf\<rparr>"

definition clear :: "ProbabilityMap \<Rightarrow> ProbabilityMap" where
  "clear g = g\<lparr>data := Zero (rows g) (cols g)\<rparr>"

definition toWorld :: "ProbabilityMap \<Rightarrow> Point2 \<Rightarrow> Point2" where
  "toWorld g map_coordinates = pt_add (pt_scale (cell_size g) map_coordinates) (origin g)"

definition fromWorld :: "ProbabilityMap \<Rightarrow> Point2 \<Rightarrow> Point2" where
  "fromWorld g world_coordinates = pt_div (pt_sub world_coordinates (origin g)) (cell_size g)"

definition inside :: "ProbabilityMap \<Rightarrow> int \<Rightarrow> int \<Rightarrow> bool" where
  "inside g r c \<longleftrightarrow> r \<ge> 0 \<and> r < int (rows g) \<and> c \<ge> 0 \<and> c < int (cols g)"

text \<open>
  Modelled from the spec: the overload \<open>inside(const gtsam::Point2&)\<close> is defined in the
  missing header. The spec describes it as the continuous test of the same boundary rule
  on the point's components, the point being inside \<open>[0,rows) \<times> [0,cols)\<close> with \<open>y\<close> the
  row axis and \<open>x\<close> the column axis.
\<close>

definition inside_point :: "ProbabilityMap \<Rightarrow> Point2 \<Rightarrow> bool" where
  "inside_point g p \<longleftrightarrow>
     py p \<ge> 0 \<and> py p < real (rows g) \<and> px p \<ge> 0 \<and> px p < real (cols g)"

definition LogOddsToProbability :: "real \<Rightarrow> real" where
  "LogOddsToProbability log_odds =
     (let odds = exp log_odds;
          probability = odds / (1 + odds)
      in probability)"

definition ProbabilityToLogOdds :: "real \<Rightarrow> real" where
  "ProbabilityToLogOdds probability =
     (let odds = probability / (1 - probability);
          log_odds = ln odds
      in log_odds)"

text \<open>
  \<open>at\<close> (here \<open>at_cell\<close>, as \<open>at\<close> is a constant of the library) throws
  \<open>std::runtime_error\<close> outside the grid: the error value \<open>OutOfBounds\<close>.
\<close>

definition at_cell :: "ProbabilityMap \<Rightarrow> int \<Rightarrow> int \<Rightarrow> error + real" where
  "at_cell g r c =
     (if \<not> inside g r c then Inl OutOfBounds
      else Inr (LogOddsToProbability (coeff (data g) (nat r) (nat c))))"

text \<open>
  \<open>update\<close> changes the object in place, so the model returns the outcome of the call
  together with the map as the call leaves it. The three statements after the bounds
  check are kept apart: the increment, the upper clamp, the lower clamp.
\<close>

definition update :: "int \<Rightarrow> int \<Rightarrow> real \<Rightarrow> ProbabilityMap \<Rightarrow> (error + unit) \<times> ProbabilityMap" where
  "update r c probability g =
     (if \<not> inside g r c then (Inl OutOfBounds, g)
      else
        let i = nat r; j = nat c;
            d1 = set_coeff (data g) i j (coeff (data g) i j + ProbabilityToLogOdds probability);
            d2 = (if coeff d1 i j > MAX_LOG_ODDS then set_coeff d1 i j MAX_LOG_ODDS else d1);
            d3 = (if coeff d2 i j < - MAX_LOG_ODDS then set_coeff d2 i j (- MAX_LOG_ODDS) else d2)
        in (Inr (), g\<lparr>data := d3\<rparr>))"

text \<open>A sequence of calls of \<open>update\<close>, each given as (row, col, probability).\<close>

fun updates :: "(int \<times> int \<times> real) list \<Rightarrow> ProbabilityMap \<Rightarrow> ProbabilityMap" where
  "updates [] g = g"
| "updates ((r, c, p) # us) g = updates us (snd (update r c p g))"

text \<open>Every stored log-odds value of the map lies in \<open>[-MAX_LOG_ODDS, +MAX_LOG_ODDS]\<close>.\<close>

definition clamped :: "ProbabilityMap \<Rightarrow> bool" where
  "clamped g \<longleftrightarrow>
     (\<forall>i < rows g. \<forall>j < cols g.
        - MAX_LOG_ODDS \<le> coeff (data g) i j \<and> coeff (data g) i j \<le> MAX_LOG_ODDS)"

subsection \<open>Interpolation\<close>

text \<open>
  The columns \<open>x1\<close>, \<open>x2\<close> and the rows \<open>y1\<close>, \<open>y2\<close> of the four neighbours. The
  source computes \<open>x1 = floor(x)\<close> and moves the pair to the last two columns when
  \<open>x1 >= cols() - 1\<close>; likewise for the rows. With a single column \<open>cols() - 2\<close> is
  \<open>-1\<close> as an \<open>int\<close>, whether \<open>cols()\<close> is a signed index or a \<open>size_t\<close> whose wrapped
  difference is converted to \<open>int\<close>.
\<close>

definition neighbour_cols :: "ProbabilityMap \<Rightarrow> Point2 \<Rightarrow> int \<times> int" where
  "neighbour_cols g map_coordinates =
     (let x1 = \<lfloor>px map_coordinates\<rfloor>
      in if x1 \<ge> int (cols g) - 1 then (int (cols g) - 2, int (cols g) - 1)
         else (x1, x1 + 1))"

definition neighbour_rows :: "ProbabilityMap \<Rightarrow> Point2 \<Rightarrow> int \<times> int" where
  "neighbour_rows g map_coordinates =
     (let y1 = \<lfloor>py map_coordinates\<rfloor>
      in if y1 \<ge> int (rows g) - 1 then (int (rows g) - 2, int (rows g) - 1)
         else (y1, y1 + 1))"

text \<open>
  The four calls of \<open>at\<close> may each throw; the exception leaves \<open>interpolate\<close> as it is
  thrown. There is one kind of exception, so the order of the calls, which C++ leaves
  open inside an expression, does not show in the result.
\<close>

definition interpolate :: "ProbabilityMap \<Rightarrow> Point2 \<Rightarrow> error + real" where
  "interpolate g map_coordinates =
     (if \<not> inside_point g map_coordinates then Inl OutOfBounds
      else
        let (x1, x2) = neighbour_cols g map_coordinates;
            (y1, y2) = neighbour_rows g map_coordinates;
            dx21 = real_of_int (x2 - x1);
            dx2p = real_of_int x2 - px map_coordinates;
            dxp1 = px map_coordinates - real_of_int x1;
            dy21 = real_of_int (y2 - y1);
            dy2p = real_of_int y2 - py map_coordinates;
            dyp1 = py map_coordinates - real_of_int y1
        in case at_cell g y1 x1 of Inl e \<Rightarrow> Inl e | Inr a11 \<Rightarrow>
          (case at_cell g y1 x2 of Inl e \<Rightarrow> Inl e | Inr a12 \<Rightarrow>
          (case at_cell g y2 x1 of Inl e \<Rightarrow> Inl e | Inr a21 \<Rightarrow>
          (case at_cell g y2 x2 of Inl e \<Rightarrow> Inl e | Inr a22 \<Rightarrow>
             let R1 = (dx2p / dx21) * a11 + (dxp1 / dx21) * a12;
                 R2 = (dx2p / dx21) * a21 + (dxp1 / dx21) * a22
             in Inr ((dy2p / dy21) * R1 + (dyp1 / dy21) * R2)))))"

subsection \<open>Rounded double operations\<close>

text \<open>The C++ conversion \<open>(int)\<close> of a \<open>double\<close> cuts the fraction off, towards zero.\<close>

definition double_to_int :: "real \<Rightarrow> int" where
  "double_to_int v = (if 0 \<le> v then \<lfloor>v\<rfloor> else \<lceil>v\<rceil>)"

text \<open>
  A double operation returns the exact result rounded to a double: \<open>rnd\<close> of it. Of
  \<open>rnd\<close> the proofs use what holds of rounding to nearest as long as nothing
  overflows: a double rounds to itself, rounding is odd and monotone, the halves of
  the integers up to 1024 are doubles, and \<open>v - 1\<close> is a double when \<open>v\<close> is a double
  between 1 and \<open>2^53\<close>.
\<close>

definition double_rounding :: "(real \<Rightarrow> real) \<Rightarrow> bool" where
  "double_rounding rnd \<longleftrightarrow>
     (\<forall>v. rnd (rnd v) = rnd v) \<and>
     (\<forall>v. rnd (- v) = - rnd v) \<and>
     (\<forall>v w. v \<le> w \<longrightarrow> rnd v \<le> rnd w) \<and>
     (\<forall>k::int. \<bar>k\<bar> \<le> 1024 \<longrightarrow> rnd (of_int k / 2) = of_int k / 2) \<and>
     (\<forall>v. rnd v = v \<and> 1 \<le> v \<and> v \<le> 2 ^ 53 \<longrightarrow> rnd (v - 1) = v - 1)"

text \<open>
  The library function \<open>exp\<close> in doubles is the parameter \<open>fexp\<close>: it returns a double
  that is not negative, and 1 at 0.
\<close>

definition double_exp :: "(real \<Rightarrow> real) \<Rightarrow> (real \<Rightarrow> real) \<Rightarrow> bool" where
  "double_exp rnd fexp \<longleftrightarrow> fexp 0 = 1 \<and> (\<forall>v. 0 \<le> fexp v \<and> rnd (fexp v) = fexp v)"

subsection \<open>The occupancy matrix\<close>

text \<open>\<open>LogOddsToProbability\<close> with each operation rounded, as \<open>occupancyGrid()\<close> calls it.\<close>

definition LogOddsToProbability_rounded :: "(real \<Rightarrow> real) \<Rightarrow> (real \<Rightarrow> real) \<Rightarrow> real \<Rightarrow> real" where
  "LogOddsToProbability_rounded rnd fexp log_odds =
     (let odds = fexp log_odds;
          probability = rnd (odds / rnd (1 + odds))
      in probability)"

text \<open>
  The two nested \<open>for\<close> loops of \<open>occupancyGrid()\<close>, over a zero matrix. The cell is
  \<open>(int)(255 - 255.0*LogOddsToProbability(data_(row,col)))\<close>: a product, a difference,
  the conversion to \<open>int\<close> and the conversion back to the \<open>double\<close> of the matrix.
\<close>

definition occupancyGrid :: "(real \<Rightarrow> real) \<Rightarrow> (real \<Rightarrow> real) \<Rightarrow> ProbabilityMap \<Rightarrow> Matrix" where
  "occupancyGrid rnd fexp g =
     fold (\<lambda>r occupancy.
             fold (\<lambda>c occupancy.
                     set_coeff occupancy r c
                       (of_int (double_to_int
                          (rnd (255 - rnd (255 * LogOddsToProbability_rounded rnd fexp (coeff (data g) r c)))))))
                  [0..<cols g] occupancy)
          [0..<rows g] (Zero (rows g) (cols g))"

text \<open>
  The value the specification gives for a cell, to compare with the code:
  \<open>255 - round(255 * probability)\<close>.
\<close>

definition occupancy_spec :: "real \<Rightarrow> int" where
  "occupancy_spec log_odds = 255 - round (255 * LogOddsToProbability log_odds)"

subsection \<open>Line rasterisation\<close>

text \<open>The struct \<open>LineCell\<close>; its member \<open>end\<close> is \<open>end_pt\<close> here.\<close>

record LineCell =
  row :: int
  col :: int
  start :: Point2
  end_pt :: Point2

text \<open>
  \<open>findIntersections\<close> divides by the components of the ray direction and, for a ray
  along an axis, computes with the infinite quotients of IEEE arithmetic, which the
  reals do not have. \<open>line\<close> only stores its two results in the cell it emits, so it is
  modelled for an arbitrary intersection routine, passed as the first argument.
\<close>

type_synonym find_intersections =
  "Point2 \<Rightarrow> Point2 \<Rightarrow> Point2 \<Rightarrow> Point2 \<Rightarrow> Point2 \<times> Point2"

text \<open>
  Step (1): the increment along the dominant axis and the distance to walk. When the
  two points coincide the second branch divides zero by zero; the distance is then 0
  and the loop leaves before it uses the increment.
\<close>

definition line_increment :: "Point2 \<Rightarrow> Point2 \<Rightarrow> Point2 \<times> real" where
  "line_increment start_point_map end_point_map =
     (let dx = \<bar>px end_point_map - px start_point_map\<bar>;
          sx = (if px start_point_map < px end_point_map then 1 else - 1);
          dy = \<bar>py end_point_map - py start_point_map\<bar>;
          sy = (if py start_point_map < py end_point_map then 1 else - 1)
      in if dx > dy then (Point2 sx (sy * (dy / dx)), dx)
         else (Point2 (sx * (dx / dy)) sy, dy))"

text \<open>
  Step (3): the loop \<open>while(true)\<close>, one call for each pass. The pass floors the point,
  appends a cell when the floored point is inside, leaves when nothing remains, and
  otherwise advances. The source keeps the floored coordinates \<open>u\<close> and \<open>v\<close> as
  doubles and converts them to \<open>int\<close> at the call of \<open>inside\<close> and in the cell; here they
  are integers from the start. Over the reals the distance that remains falls by one
  in each pass until it is below one, so the loop ends: the function is total.
\<close>

function line_loop ::
  "find_intersections \<Rightarrow> ProbabilityMap \<Rightarrow> Point2 \<Rightarrow> Point2 \<Rightarrow> Point2 \<Rightarrow>
   Point2 \<Rightarrow> real \<Rightarrow> LineCell list \<Rightarrow> LineCell list" where
  "line_loop fi g start_point_world end_point_world delta point increments_remaining cells =
     (let u = \<lfloor>px point\<rfloor>;
          v = \<lfloor>py point\<rfloor>;
          cells' =
            (if inside g v u then
               let box_min = toWorld g (Point2 (of_int u) (of_int v));
                   box_max = toWorld g (Point2 (of_int u + 1) (of_int v + 1));
                   intersections = fi start_point_world end_point_world box_min box_max
               in cells @ [\<lparr>row = v, col = u,
                             start = fst intersections, end_pt = snd intersections\<rparr>]
             else cells)
      in if increments_remaining \<le> 0 then cells'
         else
           let increment = (if increments_remaining < 1 then increments_remaining else 1)
           in line_loop fi g start_point_world end_point_world delta
                (pt_add point (pt_scale increment delta))
                (increments_remaining - increment) cells')"
  by pat_completeness auto
termination
proof (relation "measure (\<lambda>(fi, g, sw, ew, delta, point, rem, cells). nat \<lceil>rem\<rceil>)",
    goal_cases)
  case 1
  show ?case by simp
next
  case (2 fi g sw ew delta point increments_remaining cells u v cells' increment)
  then have pos: "0 < \<lceil>increments_remaining\<rceil>" by simp
  have "\<lceil>increments_remaining - increment\<rceil> < \<lceil>increments_remaining\<rceil>"
  proof (cases "increments_remaining < 1")
    case True
    with pos 2 show ?thesis by simp
  next
    case False
    with 2 show ?thesis by simp
  qed
  with pos show ?case by simp
qed

definition line :: "find_intersections \<Rightarrow> ProbabilityMap \<Rightarrow> Point2 \<Rightarrow> Point2 \<Rightarrow> LineCell list" where
  "line fi g start_point_world end_point_world =
     (let start_point_map = fromWorld g start_point_world;
          end_point_map = fromWorld g end_point_world;
          (delta, increments_remaining) = line_increment start_point_map end_point_map
      in line_loop fi g start_point_world end_point_world delta start_point_map
           increments_remaining [])"

text \<open>
  The points a walk of the full length visits in exact arithmetic, whatever the grid:
  from \<open>point\<close>, in steps of \<open>min 1 remaining\<close> along \<open>delta\<close>, until nothing remains.
\<close>

function walk :: "Point2 \<Rightarrow> Point2 \<Rightarrow> real \<Rightarrow> Point2 list" where
  "walk delta point remaining =
     point # (if remaining \<le> 0 then []
              else walk delta (pt_add point (pt_scale (min 1 remaining) delta))
                     (remaining - min 1 remaining))"
  by pat_completeness auto
termination
proof (relation "measure (\<lambda>(delta, point, rem). nat \<lceil>rem\<rceil>)", goal_cases)
  case 1
  show ?case by simp
next
  case (2 delta point remaining)
  then have pos: "0 < \<lceil>remaining\<rceil>" by simp
  have "\<lceil>remaining - min 1 remaining\<rceil> < \<lceil>remaining\<rceil>"
  proof (cases "remaining < 1")
    case True
    with pos show ?thesis by (simp add: min_def)
  next
    case False
    then show ?thesis by (simp add: min_def)
  qed
  with pos show ?case by simp
qed

subsection \<open>Line rasterisation with rounded operations\<close>

text \<open>
  The same functions with every double operation rounded: \<open>toWorld\<close> is a product and
  a sum, \<open>fromWorld\<close> a difference and a quotient, in each coordinate.
\<close>

definition toWorld_rounded :: "(real \<Rightarrow> real) \<Rightarrow> ProbabilityMap \<Rightarrow> Point2 \<Rightarrow> Point2" where
  "toWorld_rounded rnd g map_coordinates =
     Point2 (rnd (rnd (cell_size g * px map_coordinates) + px (origin g)))
            (rnd (rnd (cell_size g * py map_coordinates) + py (origin g)))"

definition fromWorld_rounded :: "(real \<Rightarrow> real) \<Rightarrow> ProbabilityMap \<Rightarrow> Point2 \<Rightarrow> Point2" where
  "fromWorld_rounded rnd g world_coordinates =
     Point2 (rnd (rnd (px world_coordinates - px (origin g)) / cell_size g))
            (rnd (rnd (py world_coordinates - py (origin g)) / cell_size g))"

text \<open>
  Step (1). \<open>std::fabs\<close> and the comparisons are exact; the differences, the quotient
  and the product with the sign are rounded.
\<close>

definition line_increment_rounded :: "(real \<Rightarrow> real) \<Rightarrow> Point2 \<Rightarrow> Point2 \<Rightarrow> Point2 \<times> real" where
  "line_increment_rounded rnd start_point_map end_point_map =
     (let dx = \<bar>rnd (px end_point_map - px start_point_map)\<bar>;
          sx = (if px start_point_map < px end_point_map then 1 else - 1);
          dy = \<bar>rnd (py end_point_map - py start_point_map)\<bar>;
          sy = (if py start_point_map < py end_point_map then 1 else - 1)
      in if dx > dy then (Point2 sx (rnd (sy * rnd (dy / dx))), dx)
         else (Point2 (rnd (sx * rnd (dx / dy))) sy, dy))"

text \<open>
  Step (3). With rounding the distance that remains need not fall: beyond \<open>2^53\<close> a
  double less one can round back to itself, and the loop then never leaves. The loop
  is therefore a partial function, and \<open>None\<close> is the run that does not return.
\<close>

partial_function (option) line_loop_rounded ::
  "(real \<Rightarrow> real) \<Rightarrow> find_intersections \<Rightarrow> ProbabilityMap \<Rightarrow> Point2 \<Rightarrow> Point2 \<Rightarrow> Point2 \<Rightarrow>
   Point2 \<Rightarrow> real \<Rightarrow> LineCell list \<Rightarrow> LineCell list option" where
  "line_loop_rounded rnd fi g start_point_world end_point_world delta point increments_remaining cells =
     (let u = \<lfloor>px point\<rfloor>;
          v = \<lfloor>py point\<rfloor>;
          cells' =
            (if inside g v u then
               let box_min = toWorld_rounded rnd g (Point2 (of_int u) (of_int v));
                   box_max = toWorld_rounded rnd g (Point2 (rnd (of_int u + 1)) (rnd (of_int v + 1)));
                   intersections = fi start_point_world end_point_world box_min box_max
               in cells @ [\<lparr>row = v, col = u,
                             start = fst intersections, end_pt = snd intersections\<rparr>]
             else cells)
      in if increments_remaining \<le> 0 then Some cells'
         else
           let increment = (if increments_remaining < 1 then increments_remaining else 1)
           in line_loop_rounded rnd fi g start_point_world end_point_world delta
                (Point2 (rnd (px point + rnd (increment * px delta)))
                        (rnd (py point + rnd (increment * py delta))))
                (rnd (increments_remaining - increment)) cells')"

definition line_rounded ::
  "(real \<Rightarrow> real) \<Rightarrow> find_intersections \<Rightarrow> ProbabilityMap \<Rightarrow> Point2 \<Rightarrow> Point2 \<Rightarrow> LineCell list option" where
  "line_rounded rnd fi g start_point_world end_point_world =
     (let start_point_map = fromWorld_rounded rnd g start_point_world;
          end_point_map = fromWorld_rounded rnd g end_point_world;
          (delta, increments_remaining) = line_increment_rounded rnd start_point_map end_point_map
      in line_loop_rounded rnd fi g start_point_world end_point_world delta start_point_map
           increments_remaining [])"

text \<open>
  The points a walk of \<open>n\<close> steps visits, whatever the grid: from \<open>point\<close>, in steps
  of \<open>min 1 remaining\<close> along \<open>delta\<close>, with the operations of the loop. This is the
  walk of the specification, to compare with the loop.
\<close>

fun walk_rounded :: "(real \<Rightarrow> real) \<Rightarrow> Point2 \<Rightarrow> Point2 \<Rightarrow> real \<Rightarrow> nat \<Rightarrow> Point2 list" where
  "walk_rounded rnd delta point remaining 0 = [point]"
| "walk_rounded rnd delta point remaining (Suc n) =
     point # walk_rounded rnd delta
               (Point2 (rnd (px point + rnd (min 1 remaining * px delta)))
                       (rnd (py point + rnd (min 1 remaining * py delta))))
               (rnd (remaining - min 1 remaining)) n"

text \<open>What remains of the distance after \<open>n\<close> passes of the loop.\<close>

fun remaining_after :: "(real \<Rightarrow> real) \<Rightarrow> real \<Rightarrow> nat \<Rightarrow> real" where
  "remaining_after rnd remaining 0 = remaining"
| "remaining_after rnd remaining (Suc n) =
     remaining_after rnd (rnd (remaining - min 1 remaining)) n"

declare line_loop.simps [simp del]
declare walk.simps [simp del]

section \<open>Properties\<close>

subsection \<open>Matrices, construction and the frame of \<open>update\<close>\<close>

lemma set_coeff_simps:
  "nrows (set_coeff M i j v) = nrows M"
  "ncols (set_coeff M i j v) = ncols M"
  "coeff (set_coeff M i j v) i' j' = (if i' = i \<and> j' = j then v else coeff M i' j')"
  by (simp_all add: set_coeff_def)

lemma set_coeff_same: "set_coeff M i j (coeff M i j) = M"
  by (simp add: set_coeff_def)

lemma ProbabilityMap_simps:
  "rows (ProbabilityMap m n cs org) = m"
  "cols (ProbabilityMap m n cs org) = n"
  "coeff (data (ProbabilityMap m n cs org)) i j = 0"
  "origin (ProbabilityMap m n cs org) = org"
  "cell_size (ProbabilityMap m n cs org) = cs"
  by (simp_all add: ProbabilityMap_def rows_def cols_def Zero_def)

lemma load_dims: "rows (load buf g) = rows g" "cols (load buf g) = cols g"
  by (simp_all add: load_def rows_def cols_def Matrix_from_def)

lemma update_dims:
  "rows (snd (update r c p g)) = rows g" "cols (snd (update r c p g)) = cols g"
  by (simp_all add: update_def rows_def cols_def Let_def set_coeff_simps)

lemma update_frame:
  "origin (snd (update r c p g)) = origin g" "cell_size (snd (update r c p g)) = cell_size g"
  by (simp_all add: update_def Let_def)

lemma update_inside: "inside (snd (update r c p g)) r' c' = inside g r' c'"
  by (simp add: inside_def update_dims)

lemma update_other_cell:
  "(i, j) \<noteq> (nat r, nat c) \<Longrightarrow> coeff (data (snd (update r c p g))) i j = coeff (data g) i j"
  by (auto simp add: update_def Let_def set_coeff_simps)

text \<open>The cell an update writes is in range afterwards, whatever it held before.\<close>

lemma update_written_cell:
  "inside g r c \<Longrightarrow>
     - MAX_LOG_ODDS \<le> coeff (data (snd (update r c p g))) (nat r) (nat c) \<and>
     coeff (data (snd (update r c p g))) (nat r) (nat c) \<le> MAX_LOG_ODDS"
  by (simp add: update_def Let_def set_coeff_simps MAX_LOG_ODDS_def)

lemma update_clamped: "clamped g \<Longrightarrow> clamped (snd (update r c p g))"
proof (cases "inside g r c")
  case False
  assume "clamped g"
  with False show ?thesis by (simp add: update_def)
next
  case True
  assume cl: "clamped g"
  show ?thesis
    unfolding clamped_def
  proof (intro allI impI)
    fix i j
    assume "i < rows (snd (update r c p g))" "j < cols (snd (update r c p g))"
    then have ij: "i < rows g" "j < cols g" by (simp_all add: update_dims)
    show "- MAX_LOG_ODDS \<le> coeff (data (snd (update r c p g))) i j \<and>
          coeff (data (snd (update r c p g))) i j \<le> MAX_LOG_ODDS"
    proof (cases "(i, j) = (nat r, nat c)")
      case True
      with update_written_cell [OF \<open>inside g r c\<close>, of p] show ?thesis by simp
    next
      case False
      with cl ij show ?thesis by (simp add: update_other_cell clamped_def)
    qed
  qed
qed

lemma updates_clamped: "clamped g \<Longrightarrow> clamped (updates us g)"
  by (induction us arbitrary: g) (auto simp add: update_clamped)

lemma ProbabilityMap_clamped: "clamped (ProbabilityMap m n cs org)"
  by (simp add: clamped_def ProbabilityMap_simps MAX_LOG_ODDS_def)

lemma clear_clamped: "clamped (clear g)"
  by (simp add: clamped_def clear_def Zero_def MAX_LOG_ODDS_def)

lemma ProbabilityToLogOdds_half: "ProbabilityToLogOdds (1/2) = 0"
  by (simp add: ProbabilityToLogOdds_def)

subsection \<open>Clamping\<close>

text \<open>
  Claim C1, as amended. \<open>update\<close> clamps the one cell it writes and reads no other
  cell. So in a map whose stored log-odds all lie in \<open>[-50, 50]\<close>, as they do in a new
  map (\<open>ProbabilityMap_clamped\<close>) and in a cleared one (\<open>clear_clamped\<close>), they all lie
  in \<open>[-50, 50]\<close> after each call of any sequence of calls of \<open>update\<close> on in-bounds
  cells with probabilities strictly between 0 and 1. \<open>take n us\<close> is the sequence up
  to its \<open>n\<close>-th call.
\<close>

theorem update_sequence_clamped:
  assumes "clamped g"
    and "\<forall>(r, c, p) \<in> set us. inside g r c \<and> 0 < p \<and> p < 1"
  shows "\<forall>n \<le> length us. clamped (updates (take n us) g)"
  using assms(1) by (simp add: updates_clamped)

theorem update_sequence_clamped_witness:
  "- MAX_LOG_ODDS \<le> coeff (data (updates [(0, 0, 9/10), (0, 1, 1/2)] (ProbabilityMap 1 2 1 (Point2 0 0)))) 0 0 \<and>
   coeff (data (updates [(0, 0, 9/10), (0, 1, 1/2)] (ProbabilityMap 1 2 1 (Point2 0 0)))) 0 0 \<le> MAX_LOG_ODDS"
proof -
  let ?g = "ProbabilityMap 1 2 1 (Point2 0 0)"
  let ?us = "[(0, 0, 9/10), (0, 1, 1/2)] :: (int \<times> int \<times> real) list"
  have h1: "clamped ?g"
    by (simp add: clamped_def ProbabilityMap_simps MAX_LOG_ODDS_def)
  have h2: "\<forall>(r, c, p) \<in> set ?us. inside ?g r c \<and> 0 < p \<and> p < 1"
    by (simp add: inside_def ProbabilityMap_simps)
  have "\<forall>n \<le> length ?us. clamped (updates (take n ?us) ?g)"
    by (rule update_sequence_clamped [OF h1 h2])
  then have "length ?us \<le> length ?us \<longrightarrow> clamped (updates (take (length ?us) ?us) ?g)"
    by (rule spec)
  then have "clamped (updates ?us ?g)" by simp
  then show ?thesis
    by (simp add: clamped_def update_dims ProbabilityMap_simps)
qed

text \<open>
  The claim as stated, for every map, fails on a map that \<open>load\<close> has filled: \<open>load\<close>
  stores the caller's values as they are. After \<open>load\<close> of the buffer \<open>[100, 0]\<close> into
  a 1 by 2 map, an update of cell (0,1) is in bounds and leaves 100 in cell (0,0).
\<close>

theorem update_clamped_counterexample:
  "inside (load [100, 0] (ProbabilityMap 1 2 1 (Point2 0 0))) 0 1 \<and>
   rows (snd (update 0 1 (1/2) (load [100, 0] (ProbabilityMap 1 2 1 (Point2 0 0))))) = 1 \<and>
   cols (snd (update 0 1 (1/2) (load [100, 0] (ProbabilityMap 1 2 1 (Point2 0 0))))) = 2 \<and>
   coeff (data (snd (update 0 1 (1/2) (load [100, 0] (ProbabilityMap 1 2 1 (Point2 0 0)))))) 0 0 = 100 \<and>
   \<not> 100 \<le> MAX_LOG_ODDS"
proof -
  let ?g = "load [100, 0] (ProbabilityMap 1 2 1 (Point2 0 0))"
  have ins: "inside ?g 0 1" by (simp add: inside_def load_dims ProbabilityMap_simps)
  have "coeff (data (snd (update 0 1 (1/2) ?g))) 0 0 = coeff (data ?g) 0 0"
    by (rule update_other_cell) simp
  also have "\<dots> = 100"
    by (simp add: load_def Matrix_from_def ProbabilityMap_simps)
  finally have c: "coeff (data (snd (update 0 1 (1/2) ?g))) 0 0 = 100" .
  from ins c show ?thesis
    by (simp add: update_dims load_dims ProbabilityMap_simps MAX_LOG_ODDS_def)
qed

subsection \<open>Updates\<close>

text \<open>
  Claim C8. For every (row, col) outside the grid and any probability, \<open>update\<close>
  throws \<open>OutOfBounds\<close> and leaves the map as it was: every cell, the origin and the
  cell size.
\<close>

theorem update_out_of_bounds_atomic:
  "\<not> (0 \<le> r \<and> r < int (rows g) \<and> 0 \<le> c \<and> c < int (cols g)) \<Longrightarrow>
     update r c p g = (Inl OutOfBounds, g)"
  by (simp add: update_def inside_def)

theorem update_out_of_bounds_atomic_witness:
  "update (-1) 0 (9/10) (ProbabilityMap 3 3 1 (Point2 0 0)) =
     (Inl OutOfBounds, ProbabilityMap 3 3 1 (Point2 0 0))"
  using update_out_of_bounds_atomic [of "-1" "ProbabilityMap 3 3 1 (Point2 0 0)" 0 "9/10"]
  by simp

text \<open>
  Claim C10. For every in-bounds cell whose stored log-odds lies in \<open>[-50, 50]\<close>,
  \<open>update\<close> with probability exactly 0.5 succeeds and leaves the whole map unchanged,
  that cell and every other one: \<open>ProbabilityToLogOdds 0.5\<close> is \<open>ln 1 = 0\<close>.
\<close>

theorem update_half_identity:
  assumes "inside g r c"
    and "- 50 \<le> coeff (data g) (nat r) (nat c)" and "coeff (data g) (nat r) (nat c) \<le> 50"
  shows "update r c (1/2) g = (Inr (), g)"
  using assms
  by (simp add: update_def Let_def ProbabilityToLogOdds_half set_coeff_same MAX_LOG_ODDS_def)

theorem update_half_identity_witness:
  "update 1 1 (1/2) (ProbabilityMap 3 3 1 (Point2 0 0)) = (Inr (), ProbabilityMap 3 3 1 (Point2 0 0))"
  using update_half_identity [of "ProbabilityMap 3 3 1 (Point2 0 0)" 1 1]
  by (simp add: inside_def ProbabilityMap_simps)

lemma LogOddsToProbability_0: "LogOddsToProbability 0 = 1/2"
  by (simp add: LogOddsToProbability_def)

lemma LogOddsToProbability_ln: "0 < v \<Longrightarrow> LogOddsToProbability (ln v) = v / (1 + v)"
  by (simp add: LogOddsToProbability_def)

lemma ln_9_bounds: "\<not> ln (9::real) < - 50" "ln (9::real) \<le> 50"
proof -
  have "0 < ln (9::real)" by simp
  then show "\<not> ln (9::real) < - 50" by linarith
  have "ln (9::real) \<le> 9 - 1" by (rule ln_le_minus_one) simp
  then show "ln (9::real) \<le> 50" by simp
qed

lemma at_cell_new: "inside (ProbabilityMap m n cs org) r c \<Longrightarrow> at_cell (ProbabilityMap m n cs org) r c = Inr (1/2)"
  by (simp add: at_cell_def ProbabilityMap_simps LogOddsToProbability_0)

lemma update_ok: "inside g r c \<Longrightarrow> fst (update r c p g) = Inr ()"
  by (simp add: update_def Let_def)

lemma scenario_A_cell:
  "coeff (data (snd (update 1 1 (9/10) (ProbabilityMap 3 3 1 (Point2 0 0))))) (Suc 0) (Suc 0) = ln 9"
  using ln_9_bounds
  by (simp add: update_def Let_def inside_def ProbabilityMap_simps set_coeff_simps
      ProbabilityToLogOdds_def MAX_LOG_ODDS_def)

subsection \<open>Scenario A\<close>

text \<open>
  Claim C7. On a 3 by 3 grid with cell size 1 and origin (0,0) every cell starts at
  probability 0.5. The call \<open>update(1, 1, 0.9)\<close> succeeds; after it \<open>at(1, 1)\<close> is
  strictly greater than 0.5, and \<open>at(r, c)\<close> is exactly 0.5 for every other in-bounds
  cell.
\<close>

theorem scenario_A:
  "(\<forall>r c. inside (ProbabilityMap 3 3 1 (Point2 0 0)) r c \<longrightarrow>
       at_cell (ProbabilityMap 3 3 1 (Point2 0 0)) r c = Inr (1/2)) \<and>
   fst (update 1 1 (9/10) (ProbabilityMap 3 3 1 (Point2 0 0))) = Inr () \<and>
   (\<exists>v. at_cell (snd (update 1 1 (9/10) (ProbabilityMap 3 3 1 (Point2 0 0)))) 1 1 = Inr v \<and> 1/2 < v) \<and>
   (\<forall>r c. inside (snd (update 1 1 (9/10) (ProbabilityMap 3 3 1 (Point2 0 0)))) r c \<and> (r, c) \<noteq> (1, 1) \<longrightarrow>
       at_cell (snd (update 1 1 (9/10) (ProbabilityMap 3 3 1 (Point2 0 0)))) r c = Inr (1/2))"
proof (intro conjI allI impI)
  let ?g = "ProbabilityMap 3 3 1 (Point2 0 0)"
  let ?g' = "snd (update 1 1 (9/10) ?g)"
  fix r c
  assume "inside ?g r c"
  then show "at_cell ?g r c = Inr (1/2)" by (rule at_cell_new)
next
  show "fst (update 1 1 (9/10) (ProbabilityMap 3 3 1 (Point2 0 0))) = Inr ()"
    by (rule update_ok) (simp add: inside_def ProbabilityMap_simps)
next
  let ?g = "ProbabilityMap 3 3 1 (Point2 0 0)"
  let ?g' = "snd (update 1 1 (9/10) ?g)"
  have "at_cell ?g' 1 1 = Inr (9/10)"
    by (simp add: at_cell_def inside_def update_dims ProbabilityMap_simps scenario_A_cell
        LogOddsToProbability_ln)
  moreover have "(1::real)/2 < 9/10" by simp
  ultimately show "\<exists>v. at_cell ?g' 1 1 = Inr v \<and> 1/2 < v" by blast
next
  let ?g = "ProbabilityMap 3 3 1 (Point2 0 0)"
  let ?g' = "snd (update 1 1 (9/10) ?g)"
  fix r c
  assume a: "inside ?g' r c \<and> (r, c) \<noteq> (1, 1)"
  then have ins: "inside ?g r c" by (simp add: update_inside)
  then have nn: "0 \<le> r" "0 \<le> c" by (simp_all add: inside_def)
  with a have "(nat r, nat c) \<noteq> (nat 1, nat 1)" by auto
  then have "coeff (data ?g') (nat r) (nat c) = coeff (data ?g) (nat r) (nat c)"
    by (rule update_other_cell)
  with a show "at_cell ?g' r c = Inr (1/2)"
    by (simp add: at_cell_def ProbabilityMap_simps LogOddsToProbability_0)
qed

theorem scenario_A_witness:
  "inside (snd (update 1 1 (9/10) (ProbabilityMap 3 3 1 (Point2 0 0)))) 0 2 \<and>
   at_cell (snd (update 1 1 (9/10) (ProbabilityMap 3 3 1 (Point2 0 0)))) 0 2 = Inr (1/2)"
proof -
  have i: "inside (snd (update 1 1 (9/10) (ProbabilityMap 3 3 1 (Point2 0 0)))) 0 2"
    by (simp add: inside_def update_dims ProbabilityMap_simps)
  moreover have "(0::int, 2::int) \<noteq> (1, 1)" by simp
  ultimately show ?thesis using scenario_A by blast
qed

subsection \<open>Bounds checks and interpolation\<close>

lemma at_cell_outside: "\<not> inside g r c \<Longrightarrow> at_cell g r c = Inl OutOfBounds"
  by (simp add: at_cell_def)

lemma at_cell_inside:
  "inside g r c \<Longrightarrow> at_cell g r c = Inr (LogOddsToProbability (coeff (data g) (nat r) (nat c)))"
  by (simp add: at_cell_def)

text \<open>
  \<open>at\<close> and \<open>update\<close> throw exactly when the cell is not in the grid, and
  \<open>interpolate\<close> on a grid of at least two rows and two columns throws exactly when
  the point fails the bounds test (\<open>interpolate_raises_iff\<close> below).
\<close>

lemma at_cell_raises_iff:
  "at_cell g r c = Inl OutOfBounds \<longleftrightarrow> \<not> (0 \<le> r \<and> r < int (rows g) \<and> 0 \<le> c \<and> c < int (cols g))"
  by (simp add: at_cell_def inside_def)

lemma update_raises_iff:
  "fst (update r c p g) = Inl OutOfBounds \<longleftrightarrow> \<not> (0 \<le> r \<and> r < int (rows g) \<and> 0 \<le> c \<and> c < int (cols g))"
  by (simp add: update_def inside_def Let_def)

lemma interpolate_first_call:
  "at_cell g (fst (neighbour_rows g p)) (fst (neighbour_cols g p)) = Inl OutOfBounds \<Longrightarrow>
     interpolate g p = Inl OutOfBounds"
  by (cases "neighbour_rows g p"; cases "neighbour_cols g p") (simp add: interpolate_def)

lemma neighbour_cols_single:
  assumes "cols g < 2" "inside_point g p"
  shows "fst (neighbour_cols g p) = - 1"
proof -
  from assms(2) have "0 \<le> px p" "px p < real (cols g)" by (simp_all add: inside_point_def)
  with assms(1) have "cols g = 1" "0 \<le> \<lfloor>px p\<rfloor>" by simp_all
  then show ?thesis by (simp add: neighbour_cols_def)
qed

lemma neighbour_rows_single:
  assumes "rows g < 2" "inside_point g p"
  shows "fst (neighbour_rows g p) = - 1"
proof -
  from assms(2) have "0 \<le> py p" "py p < real (rows g)" by (simp_all add: inside_point_def)
  with assms(1) have "rows g = 1" "0 \<le> \<lfloor>py p\<rfloor>" by simp_all
  then show ?thesis by (simp add: neighbour_rows_def)
qed

text \<open>
  Claim C9. On a grid with fewer than two rows or fewer than two columns
  \<open>interpolate\<close> throws \<open>OutOfBounds\<close> at every map point. At a point that passes
  the bounds test it throws because the clamped neighbour selection yields the lower
  row or the lower column \<open>-1\<close>, which \<open>at\<close> rejects.
\<close>

theorem interpolate_degenerate_grid:
  assumes "rows g < 2 \<or> cols g < 2"
  shows "interpolate g p = Inl OutOfBounds \<and>
         (inside_point g p \<longrightarrow> fst (neighbour_rows g p) < 0 \<or> fst (neighbour_cols g p) < 0)"
proof (cases "inside_point g p")
  case False
  then show ?thesis by (simp add: interpolate_def)
next
  case True
  from assms True have neg: "fst (neighbour_rows g p) < 0 \<or> fst (neighbour_cols g p) < 0"
    using neighbour_cols_single [of g p] neighbour_rows_single [of g p] by auto
  then have "\<not> inside g (fst (neighbour_rows g p)) (fst (neighbour_cols g p))"
    by (auto simp add: inside_def)
  then have "interpolate g p = Inl OutOfBounds"
    by (intro interpolate_first_call at_cell_outside)
  with neg show ?thesis by simp
qed

theorem interpolate_degenerate_grid_witness:
  "inside_point (ProbabilityMap 1 3 1 (Point2 0 0)) (Point2 (3/2) (1/2)) \<and>
   interpolate (ProbabilityMap 1 3 1 (Point2 0 0)) (Point2 (3/2) (1/2)) = Inl OutOfBounds \<and>
   fst (neighbour_rows (ProbabilityMap 1 3 1 (Point2 0 0)) (Point2 (3/2) (1/2))) = - 1"
  using interpolate_degenerate_grid [of "ProbabilityMap 1 3 1 (Point2 0 0)" "Point2 (3/2) (1/2)"]
  by (simp add: ProbabilityMap_simps inside_point_def neighbour_rows_def)

text \<open>
  Claim C2, at a failing input. On the 1 by 1 grid the map point (0,0) lies inside
  \<open>[0,rows) \<times> [0,cols)\<close> and passes the bounds test of \<open>interpolate\<close>. The
  neighbour rows and columns are both \<open>(-1, 0)\<close>, the call \<open>at(-1, -1)\<close> throws, and
  so \<open>interpolate\<close> throws \<open>OutOfBounds\<close> at a point inside the grid.
\<close>

theorem interpolate_raises_inside:
  "inside_point (ProbabilityMap 1 1 1 (Point2 0 0)) (Point2 0 0) \<and>
   neighbour_rows (ProbabilityMap 1 1 1 (Point2 0 0)) (Point2 0 0) = (- 1, 0) \<and>
   neighbour_cols (ProbabilityMap 1 1 1 (Point2 0 0)) (Point2 0 0) = (- 1, 0) \<and>
   at_cell (ProbabilityMap 1 1 1 (Point2 0 0)) (- 1) (- 1) = Inl OutOfBounds \<and>
   interpolate (ProbabilityMap 1 1 1 (Point2 0 0)) (Point2 0 0) = Inl OutOfBounds"
  by (simp add: interpolate_def inside_point_def neighbour_rows_def neighbour_cols_def
      at_cell_def inside_def ProbabilityMap_simps)

text \<open>
  Claim C3, at a failing input. On the grid of 3 rows and 1 column, cell (2,0) is in
  bounds and \<open>at(2, 0)\<close> returns 0.5, but \<open>interpolate\<close> at the integer map point
  \<open>(x, y) = (0, 2)\<close> of that cell throws \<open>OutOfBounds\<close>.
\<close>

theorem interpolate_not_exact_single_column:
  "inside (ProbabilityMap 3 1 1 (Point2 0 0)) 2 0 \<and>
   at_cell (ProbabilityMap 3 1 1 (Point2 0 0)) 2 0 = Inr (1/2) \<and>
   interpolate (ProbabilityMap 3 1 1 (Point2 0 0)) (Point2 0 2) = Inl OutOfBounds"
  by (simp add: interpolate_def inside_point_def neighbour_rows_def neighbour_cols_def
      at_cell_def inside_def ProbabilityMap_simps LogOddsToProbability_0)

text \<open>
  On a grid of at least two rows and two columns, \<open>interpolate\<close> at the integer
  map point of an in-bounds cell returns what \<open>at\<close> returns for the cell, also in the
  last row and the last column: there the weights of the clamped pair are 0 and 1.
\<close>

lemma interpolate_exact:
  assumes "2 \<le> rows g" "2 \<le> cols g" "inside g r c"
  shows "interpolate g (Point2 (of_int c) (of_int r)) = at_cell g r c"
proof -
  let ?p = "Point2 (of_int c) (of_int r)"
  from assms(3) have b: "0 \<le> r" "r < int (rows g)" "0 \<le> c" "c < int (cols g)"
    by (simp_all add: inside_def)
  then have ip: "inside_point g ?p"
    by (simp add: inside_point_def)
  have nc: "neighbour_cols g ?p = (if c = int (cols g) - 1 then (c - 1, c) else (c, c + 1))"
    using b by (auto simp add: neighbour_cols_def)
  have nr: "neighbour_rows g ?p = (if r = int (rows g) - 1 then (r - 1, r) else (r, r + 1))"
    using b by (auto simp add: neighbour_rows_def)
  have at_in: "\<And>i j. 0 \<le> i \<Longrightarrow> i < int (rows g) \<Longrightarrow> 0 \<le> j \<Longrightarrow> j < int (cols g) \<Longrightarrow>
      at_cell g i j = Inr (LogOddsToProbability (coeff (data g) (nat i) (nat j)))"
    by (simp add: at_cell_def inside_def)
  show ?thesis
  proof (cases "c = int (cols g) - 1")
    case cl: True
    with assms(2) have c1: "0 \<le> c - 1" "c - 1 < int (cols g)" by simp_all
    show ?thesis
    proof (cases "r = int (rows g) - 1")
      case True
      with assms(1) have r1: "0 \<le> r - 1" "r - 1 < int (rows g)" by simp_all
      have "neighbour_cols g ?p = (c - 1, c)" "neighbour_rows g ?p = (r - 1, r)"
        using nc nr cl True by simp_all
      moreover have "at_cell g (r - 1) (c - 1) = Inr (LogOddsToProbability (coeff (data g) (nat (r - 1)) (nat (c - 1))))"
        by (rule at_in) (use b c1 r1 in simp_all)
      moreover have "at_cell g (r - 1) (c) = Inr (LogOddsToProbability (coeff (data g) (nat (r - 1)) (nat (c))))"
        by (rule at_in) (use b c1 r1 in simp_all)
      moreover have "at_cell g (r) (c - 1) = Inr (LogOddsToProbability (coeff (data g) (nat (r)) (nat (c - 1))))"
        by (rule at_in) (use b c1 r1 in simp_all)
      moreover have "at_cell g (r) (c) = Inr (LogOddsToProbability (coeff (data g) (nat (r)) (nat (c))))"
        by (rule at_in) (use b c1 r1 in simp_all)
      ultimately show ?thesis
        using ip by (simp add: interpolate_def)
    next
      case False
      with b have r1: "0 \<le> r + 1" "r + 1 < int (rows g)" by simp_all
      have "neighbour_cols g ?p = (c - 1, c)" "neighbour_rows g ?p = (r, r + 1)"
        using nc nr cl False by simp_all
      moreover have "at_cell g (r) (c - 1) = Inr (LogOddsToProbability (coeff (data g) (nat (r)) (nat (c - 1))))"
        by (rule at_in) (use b c1 r1 in simp_all)
      moreover have "at_cell g (r) (c) = Inr (LogOddsToProbability (coeff (data g) (nat (r)) (nat (c))))"
        by (rule at_in) (use b c1 r1 in simp_all)
      moreover have "at_cell g (r + 1) (c - 1) = Inr (LogOddsToProbability (coeff (data g) (nat (r + 1)) (nat (c - 1))))"
        by (rule at_in) (use b c1 r1 in simp_all)
      moreover have "at_cell g (r + 1) (c) = Inr (LogOddsToProbability (coeff (data g) (nat (r + 1)) (nat (c))))"
        by (rule at_in) (use b c1 r1 in simp_all)
      ultimately show ?thesis
        using ip by (simp add: interpolate_def)
    qed
  next
    case cl: False
    with b have c1: "0 \<le> c + 1" "c + 1 < int (cols g)" by simp_all
    show ?thesis
    proof (cases "r = int (rows g) - 1")
      case True
      with assms(1) have r1: "0 \<le> r - 1" "r - 1 < int (rows g)" by simp_all
      have "neighbour_cols g ?p = (c, c + 1)" "neighbour_rows g ?p = (r - 1, r)"
        using nc nr cl True by simp_all
      moreover have "at_cell g (r - 1) (c) = Inr (LogOddsToProbability (coeff (data g) (nat (r - 1)) (nat (c))))"
        by (rule at_in) (use b c1 r1 in simp_all)
      moreover have "at_cell g (r - 1) (c + 1) = Inr (LogOddsToProbability (coeff (data g) (nat (r - 1)) (nat (c + 1))))"
        by (rule at_in) (use b c1 r1 in simp_all)
      moreover have "at_cell g (r) (c) = Inr (LogOddsToProbability (coeff (data g) (nat (r)) (nat (c))))"
        by (rule at_in) (use b c1 r1 in simp_all)
      moreover have "at_cell g (r) (c + 1) = Inr (LogOddsToProbability (coeff (data g) (nat (r)) (nat (c + 1))))"
        by (rule at_in) (use b c1 r1 in simp_all)
      ultimately show ?thesis
        using ip by (simp add: interpolate_def)
    next
      case False
      with b have r1: "0 \<le> r + 1" "r + 1 < int (rows g)" by simp_all
      have "neighbour_cols g ?p = (c, c + 1)" "neighbour_rows g ?p = (r, r + 1)"
        using nc nr cl False by simp_all
      moreover have "at_cell g (r) (c) = Inr (LogOddsToProbability (coeff (data g) (nat (r)) (nat (c))))"
        by (rule at_in) (use b c1 r1 in simp_all)
      moreover have "at_cell g (r) (c + 1) = Inr (LogOddsToProbability (coeff (data g) (nat (r)) (nat (c + 1))))"
        by (rule at_in) (use b c1 r1 in simp_all)
      moreover have "at_cell g (r + 1) (c) = Inr (LogOddsToProbability (coeff (data g) (nat (r + 1)) (nat (c))))"
        by (rule at_in) (use b c1 r1 in simp_all)
      moreover have "at_cell g (r + 1) (c + 1) = Inr (LogOddsToProbability (coeff (data g) (nat (r + 1)) (nat (c + 1))))"
        by (rule at_in) (use b c1 r1 in simp_all)
      ultimately show ?thesis
        using ip by (simp add: interpolate_def)
    qed
  qed
qed

lemma interpolate_raises_iff:
  assumes "2 \<le> rows g" "2 \<le> cols g"
  shows "interpolate g p = Inl OutOfBounds \<longleftrightarrow> \<not> inside_point g p"
proof (cases "inside_point g p")
  case False
  then show ?thesis by (simp add: interpolate_def)
next
  case True
  obtain x1 x2 y1 y2 where n: "neighbour_cols g p = (x1, x2)" "neighbour_rows g p = (y1, y2)"
    by (cases "neighbour_cols g p"; cases "neighbour_rows g p") simp
  from True have x: "0 \<le> \<lfloor>px p\<rfloor>" "\<lfloor>px p\<rfloor> < int (cols g)"
    and y: "0 \<le> \<lfloor>py p\<rfloor>" "\<lfloor>py p\<rfloor> < int (rows g)"
    by (simp_all add: inside_point_def floor_less_iff)
  with assms n have "inside g y1 x1" "inside g y1 x2" "inside g y2 x1" "inside g y2 x2"
    by (auto simp add: inside_def neighbour_rows_def neighbour_cols_def Let_def split: if_splits)
  with True n show ?thesis
    by (simp add: interpolate_def at_cell_inside Let_def)
qed

subsection \<open>Rounding\<close>

text \<open>Exact arithmetic is one rounding: the identity, with the exponential of the reals.\<close>

lemma double_rounding_id: "double_rounding (\<lambda>v. v)"
  by (simp add: double_rounding_def)

lemma double_exp_id: "double_exp (\<lambda>v. v) exp"
  by (simp add: double_exp_def)

lemma double_rounding_0: "double_rounding rnd \<Longrightarrow> rnd 0 = 0"
  unfolding double_rounding_def by (metis add.inverse_neutral neg_equal_0_iff_equal equal_neg_zero)

lemma double_rounding_abs: 
  assumes "double_rounding rnd" shows "rnd \<bar>rnd v\<bar> = \<bar>rnd v\<bar>"
proof (cases "0 \<le> rnd v")
  case True
  with assms show ?thesis by (simp add: double_rounding_def)
next
  case False
  then have "\<bar>rnd v\<bar> = - rnd v" by simp
  with assms show ?thesis by (simp add: double_rounding_def)
qed

lemma double_rounding_half:
  "double_rounding rnd \<Longrightarrow> \<bar>k\<bar> \<le> 1024 \<Longrightarrow> rnd (of_int k / 2) = of_int k / 2"
  by (simp add: double_rounding_def)

lemma double_rounding_values:
  assumes "double_rounding rnd"
  shows "rnd 1 = 1" "rnd 2 = 2" "rnd 255 = 255" "rnd (1/2) = 1/2" "rnd (255/2) = 255/2"
  using double_rounding_half [OF assms, of 2] double_rounding_half [OF assms, of 4]
    double_rounding_half [OF assms, of 510] double_rounding_half [OF assms, of 1]
    double_rounding_half [OF assms, of 255]
  by simp_all

lemma double_rounding_mono: "double_rounding rnd \<Longrightarrow> v \<le> w \<Longrightarrow> rnd v \<le> rnd w"
  by (simp add: double_rounding_def)

lemma LogOddsToProbability_rounded_bounds:
  assumes r: "double_rounding rnd" and e: "double_exp rnd fexp"
  shows "0 \<le> LogOddsToProbability_rounded rnd fexp l \<and> LogOddsToProbability_rounded rnd fexp l \<le> 1"
proof -
  let ?odds = "fexp l"
  let ?d = "rnd (1 + ?odds)"
  from e have o: "0 \<le> ?odds" "rnd ?odds = ?odds" by (simp_all add: double_exp_def)
  have "rnd 1 \<le> ?d" by (rule double_rounding_mono [OF r]) (use o in simp)
  then have d1: "1 \<le> ?d" by (simp add: double_rounding_values [OF r])
  have "rnd ?odds \<le> ?d" by (rule double_rounding_mono [OF r]) simp
  then have d2: "?odds \<le> ?d" by (simp add: o)
  from o d1 d2 have q: "0 \<le> ?odds / ?d" "?odds / ?d \<le> 1" by simp_all
  have "rnd 0 \<le> rnd (?odds / ?d)" "rnd (?odds / ?d) \<le> rnd 1"
    using q by (auto intro: double_rounding_mono [OF r])
  then show ?thesis
    by (simp add: LogOddsToProbability_rounded_def Let_def double_rounding_0 [OF r]
        double_rounding_values [OF r])
qed

lemma occupancy_value_bounds:
  assumes r: "double_rounding rnd" and p: "0 \<le> p" "p \<le> 1"
  shows "0 \<le> rnd (255 - rnd (255 * p)) \<and> rnd (255 - rnd (255 * p)) \<le> 255"
proof -
  have "rnd 0 \<le> rnd (255 * p)" "rnd (255 * p) \<le> rnd 255"
    using p by (auto intro: double_rounding_mono [OF r])
  then have m: "0 \<le> rnd (255 * p)" "rnd (255 * p) \<le> 255"
    by (simp_all add: double_rounding_0 [OF r] double_rounding_values [OF r])
  have "rnd 0 \<le> rnd (255 - rnd (255 * p))" "rnd (255 - rnd (255 * p)) \<le> rnd 255"
    using m by (auto intro: double_rounding_mono [OF r])
  then show ?thesis
    by (simp add: double_rounding_0 [OF r] double_rounding_values [OF r])
qed

lemma LogOddsToProbability_rounded_0:
  assumes "double_rounding rnd" "double_exp rnd fexp"
  shows "LogOddsToProbability_rounded rnd fexp 0 = 1/2"
  using assms(2)
  by (simp add: LogOddsToProbability_rounded_def double_exp_def double_rounding_values [OF assms(1)])

lemma LogOddsToProbability_rounded_exact:
  "LogOddsToProbability_rounded (\<lambda>v. v) exp l = LogOddsToProbability l"
  by (simp add: LogOddsToProbability_rounded_def LogOddsToProbability_def)

subsection \<open>The occupancy raster\<close>

lemma double_to_int_nonneg: "0 \<le> v \<Longrightarrow> double_to_int v = \<lfloor>v\<rfloor>"
  by (simp add: double_to_int_def)

text \<open>The inner loop writes row \<open>r\<close> up to column \<open>n\<close>; the outer loop the rows up to \<open>m\<close>.\<close>

lemma fold_cols:
  "coeff (fold (\<lambda>c occ. set_coeff occ r c (f c)) [0..<n] M) i j =
     (if i = r \<and> j < n then f j else coeff M i j)"
  by (induction n) (auto simp add: set_coeff_simps)

lemma fold_cols_dims:
  "nrows (fold (\<lambda>c occ. set_coeff occ r c (f c)) [0..<n] M) = nrows M"
  "ncols (fold (\<lambda>c occ. set_coeff occ r c (f c)) [0..<n] M) = ncols M"
  by (induction n) (auto simp add: set_coeff_simps)

lemma fold_rows:
  "coeff (fold (\<lambda>r occ. fold (\<lambda>c occ. set_coeff occ r c (f r c)) [0..<n] occ) [0..<m] M) i j =
     (if i < m \<and> j < n then f i j else coeff M i j)"
  by (induction m) (auto simp add: fold_cols)

lemma fold_rows_dims:
  "nrows (fold (\<lambda>r occ. fold (\<lambda>c occ. set_coeff occ r c (f r c)) [0..<n] occ) [0..<m] M) = nrows M"
  "ncols (fold (\<lambda>r occ. fold (\<lambda>c occ. set_coeff occ r c (f r c)) [0..<n] occ) [0..<m] M) = ncols M"
  by (induction m) (auto simp add: fold_cols_dims)

lemma occupancyGrid_coeff:
  "i < rows g \<Longrightarrow> j < cols g \<Longrightarrow>
     coeff (occupancyGrid rnd fexp g) i j =
       of_int (double_to_int
         (rnd (255 - rnd (255 * LogOddsToProbability_rounded rnd fexp (coeff (data g) i j)))))"
  by (simp add: occupancyGrid_def fold_rows)

text \<open>
  Claim C5, as amended. On a map whose stored log-odds lie in \<open>[-50, 50]\<close>, where the
  exponential does not overflow, \<open>occupancyGrid()\<close> returns a \<open>rows\<close> by \<open>cols\<close> matrix
  in which every cell holds the integer part of the double that the program computes
  for \<open>255 - 255 * LogOddsToProbability(cells[r][c])\<close>: the conversion \<open>(int)\<close> cuts
  the fraction off, it does not round. The value lies between 0 and 255, both
  included. On a newly constructed grid every entry is 127, which is also what the
  formula of the specification, \<open>255 - round(255 * 0.5)\<close>, gives there. This holds for
  every rounding and every exponential with the properties above.
\<close>

theorem occupancyGrid_truncates:
  assumes r: "double_rounding rnd" and e: "double_exp rnd fexp" and c: "clamped g"
  shows "nrows (occupancyGrid rnd fexp g) = rows g \<and> ncols (occupancyGrid rnd fexp g) = cols g \<and>
   (\<forall>i < rows g. \<forall>j < cols g.
      coeff (occupancyGrid rnd fexp g) i j =
        of_int \<lfloor>rnd (255 - rnd (255 * LogOddsToProbability_rounded rnd fexp (coeff (data g) i j)))\<rfloor> \<and>
      0 \<le> coeff (occupancyGrid rnd fexp g) i j \<and> coeff (occupancyGrid rnd fexp g) i j \<le> 255) \<and>
   (\<forall>i < m. \<forall>j < n. coeff (occupancyGrid rnd fexp (ProbabilityMap m n cs org)) i j = 127 \<and>
      occupancy_spec (coeff (data (ProbabilityMap m n cs org)) i j) = 127)"
proof (intro conjI allI impI)
  show "nrows (occupancyGrid rnd fexp g) = rows g" "ncols (occupancyGrid rnd fexp g) = cols g"
    by (simp_all add: occupancyGrid_def fold_rows_dims Zero_def)
next
  fix i j assume ij: "i < rows g" "j < cols g"
  let ?v = "rnd (255 - rnd (255 * LogOddsToProbability_rounded rnd fexp (coeff (data g) i j)))"
  have v: "0 \<le> ?v" "?v \<le> 255"
    using occupancy_value_bounds [OF r] LogOddsToProbability_rounded_bounds [OF r e] by simp_all
  with ij show eq: "coeff (occupancyGrid rnd fexp g) i j = of_int \<lfloor>?v\<rfloor>"
    by (simp add: occupancyGrid_coeff double_to_int_nonneg)
  from v have "0 \<le> \<lfloor>?v\<rfloor>" "\<lfloor>?v\<rfloor> \<le> 255" by (simp_all add: floor_le_iff)
  then have "(0::real) \<le> of_int \<lfloor>?v\<rfloor>" "(of_int \<lfloor>?v\<rfloor> :: real) \<le> 255"
    by linarith+
  with eq show "0 \<le> coeff (occupancyGrid rnd fexp g) i j" "coeff (occupancyGrid rnd fexp g) i j \<le> 255"
    by simp_all
next
  fix i j assume ij: "i < m" "j < n"
  then show "coeff (occupancyGrid rnd fexp (ProbabilityMap m n cs org)) i j = 127"
    by (simp add: occupancyGrid_coeff ProbabilityMap_simps LogOddsToProbability_rounded_0 [OF r e]
        double_rounding_values [OF r] double_to_int_def)
  show "occupancy_spec (coeff (data (ProbabilityMap m n cs org)) i j) = 127"
    by (simp add: occupancy_spec_def ProbabilityMap_simps LogOddsToProbability_0 round_def)
qed

theorem occupancyGrid_truncates_witness:
  "coeff (occupancyGrid (\<lambda>v. v) exp (ProbabilityMap 2 2 1 (Point2 0 0))) 1 0 = 127"
  using occupancyGrid_truncates [OF double_rounding_id double_exp_id ProbabilityMap_clamped,
      of 2 2 1 "Point2 0 0" 2 2 1 "Point2 0 0"]
  by simp

text \<open>
  The claim as stated, with \<open>255 - round(255 * probability)\<close> in every cell, fails
  where \<open>255 * probability\<close> has a fraction below one half. After \<open>update(0, 0, 0.75)\<close>
  on a new 1 by 1 grid the cell holds \<open>ln 3\<close>, of probability 0.75: the code stores
  the integer part of \<open>255 - 191.25 = 63.75\<close>, which is 63, and the formula of the
  specification gives \<open>255 - 191 = 64\<close>. The values are far from the next integer, so
  the rounding of the machine does not change them; the theorem computes them in
  exact arithmetic.
\<close>

lemma ln_3_bounds: "\<not> ln (3::real) < - 50" "\<not> 50 < ln (3::real)"
proof -
  have "0 < ln (3::real)" by simp
  then show "\<not> ln (3::real) < - 50" by linarith
  have "ln (3::real) \<le> 3 - 1" by (rule ln_le_minus_one) simp
  then show "\<not> 50 < ln (3::real)" by simp
qed

theorem occupancyGrid_round_counterexample:
  "coeff (data (snd (update 0 0 (3/4) (ProbabilityMap 1 1 1 (Point2 0 0))))) 0 0 = ln 3 \<and>
   LogOddsToProbability (ln 3) = 3/4 \<and>
   coeff (occupancyGrid (\<lambda>v. v) exp (snd (update 0 0 (3/4) (ProbabilityMap 1 1 1 (Point2 0 0))))) 0 0 = 63 \<and>
   occupancy_spec (coeff (data (snd (update 0 0 (3/4) (ProbabilityMap 1 1 1 (Point2 0 0))))) 0 0) = 64"
proof -
  let ?g = "snd (update 0 0 (3/4) (ProbabilityMap 1 1 1 (Point2 0 0)))"
  have c: "coeff (data ?g) 0 0 = ln 3"
    using ln_3_bounds
    by (simp add: update_def Let_def inside_def ProbabilityMap_simps set_coeff_simps
        ProbabilityToLogOdds_def MAX_LOG_ODDS_def)
  have p: "LogOddsToProbability (ln 3) = 3/4"
    by (simp add: LogOddsToProbability_ln)
  have "coeff (occupancyGrid (\<lambda>v. v) exp ?g) 0 0 =
      of_int (double_to_int (255 - 255 * LogOddsToProbability (coeff (data ?g) 0 0)))"
    by (subst occupancyGrid_coeff)
       (simp_all add: update_dims ProbabilityMap_simps LogOddsToProbability_rounded_exact)
  also have "\<dots> = of_int (double_to_int (255 - 255 * (3/4)))"
    by (simp only: c p)
  also have "\<dots> = 63"
    by (simp add: double_to_int_def)
  finally have o: "coeff (occupancyGrid (\<lambda>v. v) exp ?g) 0 0 = 63" .
  have "occupancy_spec (coeff (data ?g) 0 0) = 255 - round (255 * (3/4 :: real))"
    by (simp only: occupancy_spec_def c p)
  also have "\<dots> = 64"
    by (simp add: round_def)
  finally have "occupancy_spec (coeff (data ?g) 0 0) = 64" .
  with o c p show ?thesis by (simp only: simp_thms)
qed

subsection \<open>The line walk in exact arithmetic\<close>

text \<open>
  In exact arithmetic the loop emits, in order, the cells of the points of the full
  walk that are inside the grid, after the cells it was started with.
\<close>

lemma line_loop_cells:
  "map (\<lambda>c. (row c, col c)) (line_loop fi g sw ew delta point rem cells) =
     map (\<lambda>c. (row c, col c)) cells @
     filter (\<lambda>(v, u). inside g v u) (map (\<lambda>p. (\<lfloor>py p\<rfloor>, \<lfloor>px p\<rfloor>)) (walk delta point rem))"
proof (induction fi g sw ew delta point rem cells rule: line_loop.induct)
  case (1 fi g sw ew delta point rem cells)
  show ?case
  proof (cases "rem \<le> 0")
    case True
    then show ?thesis
      by (subst line_loop.simps, subst walk.simps) (simp add: Let_def)
  next
    case False
    have m: "(if rem < 1 then rem else 1) = min 1 rem" by (simp add: min_def)
    note ih = 1 [OF refl refl refl False refl]
    show ?thesis
    proof (cases "inside g \<lfloor>py point\<rfloor> \<lfloor>px point\<rfloor>")
      case True
      with ih False show ?thesis
        by (subst line_loop.simps, subst walk.simps) (simp add: Let_def m)
    next
      case outside: False
      with ih False show ?thesis
        by (subst line_loop.simps, subst walk.simps) (simp add: Let_def m)
    qed
  qed
qed

lemma line_cells:
  "map (\<lambda>c. (row c, col c)) (line fi g sw ew) =
     filter (\<lambda>(v, u). inside g v u)
       (map (\<lambda>p. (\<lfloor>py p\<rfloor>, \<lfloor>px p\<rfloor>))
          (walk (fst (line_increment (fromWorld g sw) (fromWorld g ew))) (fromWorld g sw)
             (snd (line_increment (fromWorld g sw) (fromWorld g ew)))))"
  by (simp add: line_def Let_def line_loop_cells split: prod.splits)

subsection \<open>Scenario C\<close>

lemma scenario_C_walk:
  "map (\<lambda>p. (\<lfloor>py p\<rfloor>, \<lfloor>px p\<rfloor>)) (walk (Point2 1 0) (Point2 (1/2) (1/2)) 9) =
     [(0, 0), (0, 1), (0, 2), (0, 3), (0, 4), (0, 5), (0, 6), (0, 7), (0, 8), (0, 9)]"
  by (simp add: walk.simps pt_add_def pt_scale_def)

text \<open>
  Claim C4. On a 10 by 10 grid with cell size 0.1 and origin (0,0), \<open>line\<close> from the
  world point (0.05, 0.05) to the world point (0.95, 0.05) returns exactly 10 cells,
  all of row 0, with the columns 0 to 9 in increasing order, whatever the intersection
  routine returns.
\<close>

theorem scenario_C:
  "length (line fi (ProbabilityMap 10 10 (1/10) (Point2 0 0)) (Point2 (1/20) (1/20)) (Point2 (19/20) (1/20))) = 10 \<and>
   map (\<lambda>c. (row c, col c))
     (line fi (ProbabilityMap 10 10 (1/10) (Point2 0 0)) (Point2 (1/20) (1/20)) (Point2 (19/20) (1/20))) =
     [(0, 0), (0, 1), (0, 2), (0, 3), (0, 4), (0, 5), (0, 6), (0, 7), (0, 8), (0, 9)]"
proof -
  let ?g = "ProbabilityMap 10 10 (1/10) (Point2 0 0)"
  let ?l = "line fi ?g (Point2 (1/20) (1/20)) (Point2 (19/20) (1/20))"
  have s: "fromWorld ?g (Point2 (1/20) (1/20)) = Point2 (1/2) (1/2)"
    and e: "fromWorld ?g (Point2 (19/20) (1/20)) = Point2 (19/2) (1/2)"
    by (simp_all add: fromWorld_def pt_sub_def pt_div_def ProbabilityMap_simps)
  have i: "line_increment (Point2 (1/2) (1/2)) (Point2 (19/2) (1/2)) = (Point2 1 0, 9)"
    by (simp add: line_increment_def)
  have m: "map (\<lambda>c. (row c, col c)) ?l =
      [(0, 0), (0, 1), (0, 2), (0, 3), (0, 4), (0, 5), (0, 6), (0, 7), (0, 8), (0, 9)]"
    by (simp only: line_cells s e i fst_conv snd_conv scenario_C_walk)
       (simp add: inside_def ProbabilityMap_simps)
  have "length ?l = length (map (\<lambda>c. (row c, col c)) ?l)" by simp
  also have "\<dots> = 10" by (simp only: m) simp
  finally show ?thesis using m by simp
qed

subsection \<open>The line walk with rounded operations\<close>

text \<open>
  When the distance that remains is a double of at most \<open>2^53\<close>, the loop returns. It
  emits, in order, the cells of the points of the walk of \<open>ceil(remaining)\<close> steps that
  are inside the grid, after the cells it was started with.
\<close>

lemma line_loop_rounded_cells:
  assumes r: "double_rounding rnd"
  shows "nat \<lceil>rem\<rceil> = n \<Longrightarrow> rnd rem = rem \<Longrightarrow> rem \<le> 2 ^ 53 \<Longrightarrow>
    \<exists>cs. line_loop_rounded rnd fi g sw ew delta point rem cells = Some cs \<and>
      map (\<lambda>c. (row c, col c)) cs =
        map (\<lambda>c. (row c, col c)) cells @
        filter (\<lambda>(v, u). inside g v u)
          (map (\<lambda>p. (\<lfloor>py p\<rfloor>, \<lfloor>px p\<rfloor>)) (walk_rounded rnd delta point rem n))"
proof (induction n arbitrary: point rem cells)
  case 0
  then have "rem \<le> 0" by (simp add: ceiling_le_iff)
  then show ?case
    by (subst line_loop_rounded.simps) (simp add: Let_def)
next
  case (Suc n)
  then have pos: "\<not> rem \<le> 0" by (auto simp add: ceiling_le_iff)
  let ?inc = "if rem < 1 then rem else 1"
  let ?rem' = "rnd (rem - ?inc)"
  let ?point' = "Point2 (rnd (px point + rnd (?inc * px delta))) (rnd (py point + rnd (?inc * py delta)))"
  have m: "?inc = min 1 rem" by (simp add: min_def)
  have rem': "nat \<lceil>?rem'\<rceil> = n \<and> rnd ?rem' = ?rem' \<and> ?rem' \<le> 2 ^ 53"
  proof (cases "rem < 1")
    case True
    with pos have "\<lceil>rem\<rceil> = 1" by (simp add: ceiling_eq_iff)
    with Suc.prems(1) have "n = 0" by simp
    with True show ?thesis by (simp add: double_rounding_0 [OF r])
  next
    case False
    with Suc.prems r have e: "rnd (rem - 1) = rem - 1"
      by (simp add: double_rounding_def)
    from Suc.prems(1) have "nat \<lceil>rem - 1\<rceil> = n" by simp
    with False e Suc.prems(3) show ?thesis by simp
  qed
  let ?cells' = "if inside g \<lfloor>py point\<rfloor> \<lfloor>px point\<rfloor> then
      let box_min = toWorld_rounded rnd g (Point2 (of_int \<lfloor>px point\<rfloor>) (of_int \<lfloor>py point\<rfloor>));
          box_max = toWorld_rounded rnd g
            (Point2 (rnd (of_int \<lfloor>px point\<rfloor> + 1)) (rnd (of_int \<lfloor>py point\<rfloor> + 1)));
          intersections = fi sw ew box_min box_max
      in cells @ [\<lparr>row = \<lfloor>py point\<rfloor>, col = \<lfloor>px point\<rfloor>,
                    start = fst intersections, end_pt = snd intersections\<rparr>]
    else cells"
  have step: "line_loop_rounded rnd fi g sw ew delta point rem cells =
      line_loop_rounded rnd fi g sw ew delta ?point' ?rem' ?cells'"
    using pos by (subst line_loop_rounded.simps) (simp only: Let_def if_False)
  have proj: "map (\<lambda>c. (row c, col c)) ?cells' =
      map (\<lambda>c. (row c, col c)) cells @
      filter (\<lambda>(v, u). inside g v u) [(\<lfloor>py point\<rfloor>, \<lfloor>px point\<rfloor>)]"
    by (simp add: Let_def)
  have w: "walk_rounded rnd delta point rem (Suc n) = point # walk_rounded rnd delta ?point' ?rem' n"
    by (simp only: walk_rounded.simps m)
  from rem' obtain cs where cs: "line_loop_rounded rnd fi g sw ew delta ?point' ?rem' ?cells' = Some cs"
    "map (\<lambda>c. (row c, col c)) cs =
        map (\<lambda>c. (row c, col c)) ?cells' @
        filter (\<lambda>(v, u). inside g v u)
          (map (\<lambda>p. (\<lfloor>py p\<rfloor>, \<lfloor>px p\<rfloor>)) (walk_rounded rnd delta ?point' ?rem' n))"
    using Suc.IH [of ?rem' ?point' ?cells'] by blast
  have "map (\<lambda>c. (row c, col c)) cs =
        map (\<lambda>c. (row c, col c)) cells @
        filter (\<lambda>(v, u). inside g v u)
          (map (\<lambda>p. (\<lfloor>py p\<rfloor>, \<lfloor>px p\<rfloor>)) (walk_rounded rnd delta point rem (Suc n)))"
    by (simp only: cs(2) proj w) simp
  with step cs(1) show ?case by simp
qed

lemma walk_rounded_length: "length (walk_rounded rnd delta point rem n) = n + 1"
  by (induction n arbitrary: point rem) simp_all

lemma line_increment_rounded_span:
  assumes "double_rounding rnd"
  shows "rnd (snd (line_increment_rounded rnd s e)) = snd (line_increment_rounded rnd s e)"
  by (simp add: line_increment_rounded_def Let_def double_rounding_abs [OF assms])

lemma line_rounded_cells:
  assumes "double_rounding rnd"
    and "snd (line_increment_rounded rnd (fromWorld_rounded rnd g sw) (fromWorld_rounded rnd g ew)) \<le> 2 ^ 53"
  shows "map_option (map (\<lambda>c. (row c, col c))) (line_rounded rnd fi g sw ew) =
     Some (filter (\<lambda>(v, u). inside g v u)
       (map (\<lambda>p. (\<lfloor>py p\<rfloor>, \<lfloor>px p\<rfloor>))
          (walk_rounded rnd
             (fst (line_increment_rounded rnd (fromWorld_rounded rnd g sw) (fromWorld_rounded rnd g ew)))
             (fromWorld_rounded rnd g sw)
             (snd (line_increment_rounded rnd (fromWorld_rounded rnd g sw) (fromWorld_rounded rnd g ew)))
             (nat \<lceil>snd (line_increment_rounded rnd (fromWorld_rounded rnd g sw) (fromWorld_rounded rnd g ew))\<rceil>))))"
proof -
  let ?s = "fromWorld_rounded rnd g sw" and ?e = "fromWorld_rounded rnd g ew"
  let ?d = "fst (line_increment_rounded rnd ?s ?e)" and ?r = "snd (line_increment_rounded rnd ?s ?e)"
  have l: "line_rounded rnd fi g sw ew = line_loop_rounded rnd fi g sw ew ?d ?s ?r []"
    by (simp add: line_rounded_def Let_def split: prod.splits)
  from line_loop_rounded_cells [OF assms(1) refl line_increment_rounded_span [OF assms(1)] assms(2),
      of fi g sw ew ?d ?s "[]"]
  obtain cs where "line_loop_rounded rnd fi g sw ew ?d ?s ?r [] = Some cs"
    "map (\<lambda>c. (row c, col c)) cs =
       filter (\<lambda>(v, u). inside g v u)
         (map (\<lambda>p. (\<lfloor>py p\<rfloor>, \<lfloor>px p\<rfloor>)) (walk_rounded rnd ?d ?s ?r (nat \<lceil>?r\<rceil>)))"
    by auto
  with l show ?thesis by simp
qed

text \<open>
  Whatever the rounding, a run of the loop that returns has left because nothing
  remained, after some number \<open>n\<close> of steps, and has emitted the cells of the \<open>n + 1\<close>
  points of the walk that are inside the grid.
\<close>

lemma line_loop_rounded_returns:
  assumes "line_loop_rounded rnd fi g sw ew delta point rem cells = Some cs"
  shows "\<exists>n. remaining_after rnd rem n \<le> 0 \<and> (\<forall>k < n. 0 < remaining_after rnd rem k) \<and>
      map (\<lambda>c. (row c, col c)) cs =
        map (\<lambda>c. (row c, col c)) cells @
        filter (\<lambda>(v, u). inside g v u)
          (map (\<lambda>p. (\<lfloor>py p\<rfloor>, \<lfloor>px p\<rfloor>)) (walk_rounded rnd delta point rem n))"
proof (rule line_loop_rounded.raw_induct
    [where P = "\<lambda>rnd fi g sw ew delta point rem cells cs.
      \<exists>n. remaining_after rnd rem n \<le> 0 \<and> (\<forall>k < n. 0 < remaining_after rnd rem k) \<and>
        map (\<lambda>c. (row c, col c)) cs =
          map (\<lambda>c. (row c, col c)) cells @
          filter (\<lambda>(v, u). inside g v u)
            (map (\<lambda>p. (\<lfloor>py p\<rfloor>, \<lfloor>px p\<rfloor>)) (walk_rounded rnd delta point rem n))",
     OF _ assms], goal_cases)
  case (1 loop rnd fi g sw ew delta point rem cells cs)
  let ?inc = "if rem < 1 then rem else 1"
  let ?rem' = "rnd (rem - ?inc)"
  let ?point' = "Point2 (rnd (px point + rnd (?inc * px delta))) (rnd (py point + rnd (?inc * py delta)))"
  let ?cells' = "if inside g \<lfloor>py point\<rfloor> \<lfloor>px point\<rfloor> then
      let box_min = toWorld_rounded rnd g (Point2 (of_int \<lfloor>px point\<rfloor>) (of_int \<lfloor>py point\<rfloor>));
          box_max = toWorld_rounded rnd g
            (Point2 (rnd (of_int \<lfloor>px point\<rfloor> + 1)) (rnd (of_int \<lfloor>py point\<rfloor> + 1)));
          intersections = fi sw ew box_min box_max
      in cells @ [\<lparr>row = \<lfloor>py point\<rfloor>, col = \<lfloor>px point\<rfloor>,
                    start = fst intersections, end_pt = snd intersections\<rparr>]
    else cells"
  have m: "?inc = min 1 rem" by (simp add: min_def)
  have proj: "map (\<lambda>c. (row c, col c)) ?cells' =
      map (\<lambda>c. (row c, col c)) cells @
      filter (\<lambda>(v, u). inside g v u) [(\<lfloor>py point\<rfloor>, \<lfloor>px point\<rfloor>)]"
    by (simp add: Let_def)
  show ?case
  proof (cases "rem \<le> 0")
    case True
    with 1(2) have "cs = ?cells'" by (simp only: Let_def if_True) simp
    with proj True have "remaining_after rnd rem 0 \<le> 0 \<and> (\<forall>k < 0. 0 < remaining_after rnd rem k) \<and>
      map (\<lambda>c. (row c, col c)) cs =
        map (\<lambda>c. (row c, col c)) cells @
        filter (\<lambda>(v, u). inside g v u)
          (map (\<lambda>p. (\<lfloor>py p\<rfloor>, \<lfloor>px p\<rfloor>)) (walk_rounded rnd delta point rem 0))"
      by simp
    then show ?thesis by blast
  next
    case False
    with 1(2) have "loop rnd fi g sw ew delta ?point' ?rem' ?cells' = Some cs"
      by (simp only: Let_def if_False)
    from 1(1) [OF this] obtain n where n: "remaining_after rnd ?rem' n \<le> 0"
      "\<forall>k < n. 0 < remaining_after rnd ?rem' k"
      "map (\<lambda>c. (row c, col c)) cs =
        map (\<lambda>c. (row c, col c)) ?cells' @
        filter (\<lambda>(v, u). inside g v u)
          (map (\<lambda>p. (\<lfloor>py p\<rfloor>, \<lfloor>px p\<rfloor>)) (walk_rounded rnd delta ?point' ?rem' n))"
      by blast
    have a: "remaining_after rnd rem (Suc n) \<le> 0"
      using n(1) by (simp only: remaining_after.simps m)
    have b: "\<forall>k < Suc n. 0 < remaining_after rnd rem k"
    proof (intro allI impI)
      fix k assume "k < Suc n"
      show "0 < remaining_after rnd rem k"
      proof (cases k)
        case 0
        with False show ?thesis by simp
      next
        case (Suc k')
        with \<open>k < Suc n\<close> n(2) have "0 < remaining_after rnd ?rem' k'" by simp
        then show ?thesis by (simp only: Suc remaining_after.simps m)
      qed
    qed
    have w: "walk_rounded rnd delta point rem (Suc n) = point # walk_rounded rnd delta ?point' ?rem' n"
      by (simp only: walk_rounded.simps m)
    have c: "map (\<lambda>c. (row c, col c)) cs =
        map (\<lambda>c. (row c, col c)) cells @
        filter (\<lambda>(v, u). inside g v u)
          (map (\<lambda>p. (\<lfloor>py p\<rfloor>, \<lfloor>px p\<rfloor>)) (walk_rounded rnd delta point rem (Suc n)))"
      by (simp only: n(3) proj w) simp
    from a b c show ?thesis by blast
  qed
qed

text \<open>
  Claim C6. For every pair of world end points, on a map of positive cell size, with
  \<open>s\<close> and \<open>e\<close> the end points in map coordinates and \<open>len\<close> the distance along the
  dominant axis, \<open>max dx dy\<close>. Whenever \<open>line\<close> returns, the loop has taken some number
  \<open>n\<close> of steps and has left only because nothing remained of the distance: something
  remained before each step. The rows and columns of the cells returned are those of
  the floored points of the walk of \<open>n\<close> steps, \<open>n + 1\<close> points, that are inside the
  grid, in the order of the walk: a point whose cell is outside is skipped and does
  not end the walk, and the cells inside after it are emitted. This holds whatever
  the rounding. With the rounding of doubles and a distance of at most \<open>2^53\<close> cells,
  \<open>line\<close> does return, and \<open>n\<close> is \<open>ceil(len)\<close>: the whole length along the dominant
  axis.
\<close>

theorem line_walks_full_length:
  assumes "0 < cell_size g"
    and "s = fromWorld_rounded rnd g sw" and "e = fromWorld_rounded rnd g ew"
    and "line_increment_rounded rnd s e = (delta, len)"
  shows "(\<forall>cs. line_rounded rnd fi g sw ew = Some cs \<longrightarrow>
            (\<exists>n. remaining_after rnd len n \<le> 0 \<and> (\<forall>k < n. 0 < remaining_after rnd len k) \<and>
                 length (walk_rounded rnd delta s len n) = n + 1 \<and>
                 map (\<lambda>c. (row c, col c)) cs =
                   filter (\<lambda>(v, u). inside g v u)
                     (map (\<lambda>p. (\<lfloor>py p\<rfloor>, \<lfloor>px p\<rfloor>)) (walk_rounded rnd delta s len n)))) \<and>
         (double_rounding rnd \<and> len \<le> 2 ^ 53 \<longrightarrow>
            map_option (map (\<lambda>c. (row c, col c))) (line_rounded rnd fi g sw ew) =
              Some (filter (\<lambda>(v, u). inside g v u)
                (map (\<lambda>p. (\<lfloor>py p\<rfloor>, \<lfloor>px p\<rfloor>)) (walk_rounded rnd delta s len (nat \<lceil>len\<rceil>))))) \<and>
         len = max \<bar>rnd (px e - px s)\<bar> \<bar>rnd (py e - py s)\<bar>"
proof (intro conjI allI impI)
  have l: "line_rounded rnd fi g sw ew = line_loop_rounded rnd fi g sw ew delta s len []"
    using assms(2-4) by (simp add: line_rounded_def Let_def)
  {
    fix cs assume "line_rounded rnd fi g sw ew = Some cs"
    with l have "line_loop_rounded rnd fi g sw ew delta s len [] = Some cs" by simp
    from line_loop_rounded_returns [OF this]
    show "\<exists>n. remaining_after rnd len n \<le> 0 \<and> (\<forall>k < n. 0 < remaining_after rnd len k) \<and>
                 length (walk_rounded rnd delta s len n) = n + 1 \<and>
                 map (\<lambda>c. (row c, col c)) cs =
                   filter (\<lambda>(v, u). inside g v u)
                     (map (\<lambda>p. (\<lfloor>py p\<rfloor>, \<lfloor>px p\<rfloor>)) (walk_rounded rnd delta s len n))"
      by (simp add: walk_rounded_length)
  }
  {
    assume a: "double_rounding rnd \<and> len \<le> 2 ^ 53"
    then have "snd (line_increment_rounded rnd (fromWorld_rounded rnd g sw) (fromWorld_rounded rnd g ew))
        \<le> 2 ^ 53"
      using assms(2-4) by simp
    with a show "map_option (map (\<lambda>c. (row c, col c))) (line_rounded rnd fi g sw ew) =
        Some (filter (\<lambda>(v, u). inside g v u)
          (map (\<lambda>p. (\<lfloor>py p\<rfloor>, \<lfloor>px p\<rfloor>)) (walk_rounded rnd delta s len (nat \<lceil>len\<rceil>))))"
      using line_rounded_cells [of rnd g sw ew fi] assms(2-4) by simp
  }
  show "len = max \<bar>rnd (px e - px s)\<bar> \<bar>rnd (py e - py s)\<bar>"
    using assms(4) by (auto simp add: line_increment_rounded_def Let_def max_def split: if_splits)
qed

text \<open>
  On a 3 by 3 grid the walk from \<open>(-2.5, 0.5)\<close> to \<open>(2.5, 0.5)\<close>, whose numbers are
  doubles and whose operations are all exact, first visits three cells outside the
  grid, of columns -3, -2 and -1, and then emits the three cells of row 0.
\<close>

theorem line_walks_full_length_witness:
  "map_option (map (\<lambda>c. (row c, col c)))
     (line_rounded (\<lambda>v. v) (\<lambda>s e lo hi. (lo, hi)) (ProbabilityMap 3 3 1 (Point2 0 0))
        (Point2 (- (5/2)) (1/2)) (Point2 (5/2) (1/2))) =
     Some [(0, 0), (0, 1), (0, 2)]"
proof -
  let ?g = "ProbabilityMap 3 3 1 (Point2 0 0)"
  let ?id = "\<lambda>v::real. v"
  have h1: "0 < cell_size ?g" by (simp add: ProbabilityMap_simps)
  have s: "Point2 (- (5/2)) (1/2) = fromWorld_rounded ?id ?g (Point2 (- (5/2)) (1/2))"
    and e: "Point2 (5/2) (1/2) = fromWorld_rounded ?id ?g (Point2 (5/2) (1/2))"
    by (simp_all add: fromWorld_rounded_def ProbabilityMap_simps)
  have i: "line_increment_rounded ?id (Point2 (- (5/2)) (1/2)) (Point2 (5/2) (1/2)) = (Point2 1 0, 5)"
    by (simp add: line_increment_rounded_def)
  have n: "nat \<lceil>5::real\<rceil> = Suc (Suc (Suc (Suc (Suc 0))))" by simp
  have w: "map (\<lambda>p. (\<lfloor>py p\<rfloor>, \<lfloor>px p\<rfloor>))
        (walk_rounded ?id (Point2 1 0) (Point2 (- (5/2)) (1/2)) 5 (Suc (Suc (Suc (Suc (Suc 0)))))) =
      [(0, - 3), (0, - 2), (0, - 1), (0, 0), (0, 1), (0, 2)]"
    by simp
  have h: "double_rounding ?id \<and> (5::real) \<le> 2 ^ 53"
    by (simp add: double_rounding_id)
  have "map_option (map (\<lambda>c. (row c, col c)))
     (line_rounded ?id (\<lambda>s e lo hi. (lo, hi)) ?g (Point2 (- (5/2)) (1/2)) (Point2 (5/2) (1/2))) =
     Some (filter (\<lambda>(v, u). inside ?g v u)
       (map (\<lambda>p. (\<lfloor>py p\<rfloor>, \<lfloor>px p\<rfloor>))
          (walk_rounded ?id (Point2 1 0) (Point2 (- (5/2)) (1/2)) 5 (nat \<lceil>5::real\<rceil>))))"
    using line_walks_full_length [OF h1 s e i, of "\<lambda>s e lo hi. (lo, hi)"] h by blast
  then show ?thesis
    by (simp only: n w) (simp add: inside_def ProbabilityMap_simps)
qed

text \<open>With the identity for rounding, the rounded functions are the exact ones.\<close>

lemma toWorld_rounded_exact: "toWorld_rounded (\<lambda>v. v) g p = toWorld g p"
  by (simp add: toWorld_rounded_def toWorld_def pt_add_def pt_scale_def)

lemma line_loop_rounded_exact:
  "line_loop_rounded (\<lambda>v. v) fi g sw ew delta point rem cells =
     Some (line_loop fi g sw ew delta point rem cells)"
proof (induction fi g sw ew delta point rem cells rule: line_loop.induct)
  case (1 fi g sw ew delta point rem cells)
  have p: "Point2 (px q + a * px d) (py q + a * py d) = pt_add q (pt_scale a d)" for q a d
    by (simp add: pt_add_def pt_scale_def)
  show ?case
  proof (cases "rem \<le> 0")
    case True
    then show ?thesis
      by (subst line_loop_rounded.simps, subst line_loop.simps)
         (simp only: Let_def if_True toWorld_rounded_exact)
  next
    case False
    note ih = 1 [OF refl refl refl False refl, unfolded Let_def]
    from False show ?thesis
      by (subst line_loop_rounded.simps, subst line_loop.simps)
         (simp only: Let_def if_False toWorld_rounded_exact p ih)
  qed
qed

lemma line_rounded_exact: "line_rounded (\<lambda>v. v) fi g sw ew = Some (line fi g sw ew)"
proof -
  have f: "fromWorld_rounded (\<lambda>v. v) g p = fromWorld g p" for p
    by (simp add: fromWorld_rounded_def fromWorld_def pt_sub_def pt_div_def)
  have i: "line_increment_rounded (\<lambda>v. v) s e = line_increment s e" for s e
    by (simp add: line_increment_rounded_def line_increment_def)
  show ?thesis
    by (simp add: line_rounded_def line_def Let_def f i line_loop_rounded_exact split: prod.splits)
qed

end
